theory Spec2Isabelle
  imports Main "HOL-Library.Signed_Division"
begin

section \<open>Configuration of the controller (splitflap-controller.ino)\<close>

text \<open>
  The sketch fixes its configuration with preprocessor constants. The source type \<open>int\<close>
  is modelled by \<^typ>\<open>int\<close>. Homing counts up to \<open>2 * 51 * 40 = 4080\<close>, and a move from
  a state that satisfies the position invariant counts its flaps, a few dozen unless the
  re-sync keeps extending the loop; all of this is far inside a 16-bit \<open>int\<close>. A move
  that the re-sync extends without end does not return in the model, where the counters of
  the sketch would overflow. The operator \<open>%\<close> of C++ truncates towards zero and is
  modelled by \<open>smod\<close>.
\<close>

definition STEPS_PER_REVOLUTION :: int where
  "STEPS_PER_REVOLUTION = 2048"

definition STEPS_PER_FLAP :: int where
  "STEPS_PER_FLAP = 51"

definition NUM_FLAPS :: int where
  "NUM_FLAPS = 40"

definition HOME_POSITION :: int where
  "HOME_POSITION = 2"

text \<open>
  \<open>CHARACTERS\<close> holds the characters of the string literal; the terminating NUL of the
  array is left out, as \<open>NUM_CHARACTERS = sizeof(CHARACTERS) - 1\<close> leaves it out.
\<close>

definition CHARACTERS :: string where
  "CHARACTERS = '' ABCDEFGHIJKLMNOPQRSTUVWXYZ0123456789.-?!''"

definition NUM_CHARACTERS :: int where
  "NUM_CHARACTERS = int (length CHARACTERS)"

section \<open>State\<close>

text \<open>
  The three global variables of the sketch, and five counters that record what the
  sketch does to its surroundings: \<open>fwd\<close> and \<open>bwd\<close> count the calls of
  \<open>stepMotorForward\<close> and \<open>stepMotorBackward\<close>, \<open>flaps\<close> counts the calls of
  \<open>advanceOneFlap\<close>, \<open>reads\<close> counts the calls of \<open>isAtHome\<close>, and \<open>resyncs\<close>
  counts how often the warning of the mid-move re-sync is printed. The values written to
  the four coil pins and the delays do not flow back into the variables and are not
  modelled, so \<open>setStep\<close> and \<open>motorOff\<close> have no counterpart.
\<close>

record state =
  currentPosition :: int
  isHomed :: bool
  stepIndex :: int
  fwd :: nat
  bwd :: nat
  flaps :: nat
  reads :: nat
  resyncs :: nat

text \<open>The state the sketch starts from, before \<open>setup\<close> homes the display.\<close>

definition initial :: state where
  "initial = \<lparr>currentPosition = - 1, isHomed = False, stepIndex = 0,
     fwd = 0, bwd = 0, flaps = 0, reads = 0, resyncs = 0\<rparr>"

text \<open>
  The hall sensor is an input. The sketch is sequential, so its reads are totally ordered:
  \<open>sensor k\<close> is what the \<open>k\<close>-th call of \<open>isAtHome\<close> returns (\<open>True\<close> when the pin
  reads LOW).
\<close>

type_synonym sensor = "nat \<Rightarrow> bool"

definition isAtHome :: "sensor \<Rightarrow> state \<Rightarrow> bool \<times> state" where
  "isAtHome sensor s = (sensor (reads s), s\<lparr>reads := Suc (reads s)\<rparr>)"

text \<open>
  The paths of an operation end in different serial messages; the outcome names the path.
  \<open>Failed NotHomed\<close>: "Error: Not homed!"; \<open>Failed PositionOutOfRange\<close>: "Error: Position
  must be 0-39"; \<open>Failed CharacterNotFound\<close>: "Error: Character ... not found in character
  set"; \<open>Failed HomingFailed\<close>: "ERROR: Could not find home position!";
  \<open>AlreadyAtTarget\<close>: "Already at target position"; \<open>Arrived\<close>: "Arrived at position";
  \<open>HomedOk\<close>: "Homed successfully!".
\<close>

datatype error = NotHomed | PositionOutOfRange | CharacterNotFound | HomingFailed

datatype outcome = Failed error | AlreadyAtTarget | Arrived | HomedOk

section \<open>Actuator\<close>

definition stepMotorForward :: "state \<Rightarrow> state" where
  "stepMotorForward s = s\<lparr>stepIndex := (stepIndex s + 1) smod 8, fwd := Suc (fwd s)\<rparr>"

definition stepMotorBackward :: "state \<Rightarrow> state" where
  "stepMotorBackward s = s\<lparr>stepIndex := (stepIndex s - 1 + 8) smod 8, bwd := Suc (bwd s)\<rparr>"

text \<open>\<open>for (int i = 0; i < n; i++) body();\<close> with a body that does not touch \<open>i\<close> or \<open>n\<close>.\<close>

function forLoop :: "int \<Rightarrow> int \<Rightarrow> ('s \<Rightarrow> 's) \<Rightarrow> 's \<Rightarrow> 's" where
  "forLoop i n body s = (if i < n then forLoop (i + 1) n body (body s) else s)"
  by pat_completeness auto
termination
  by (relation "measure (\<lambda>(i, n, body, s). nat (n - i))") auto

definition moveSteps :: "int \<Rightarrow> state \<Rightarrow> state" where
  "moveSteps n s =
     (if n > 0 then forLoop 0 n stepMotorForward s
      else forLoop 0 (- n) stepMotorBackward s)"

definition advanceOneFlap :: "state \<Rightarrow> state" where
  "advanceOneFlap s =
     (let s1 = (moveSteps STEPS_PER_FLAP s)\<lparr>flaps := Suc (flaps s)\<rparr>
      in if currentPosition s1 \<ge> 0
         then s1\<lparr>currentPosition := (currentPosition s1 + 1) smod NUM_FLAPS\<rparr>
         else s1)"

definition testMotor :: "state \<Rightarrow> state" where
  "testMotor s = moveSteps STEPS_PER_REVOLUTION s"

section \<open>Homing\<close>

text \<open>
  The search loop of \<open>homeDisplay\<close>: the sensor is read before each step, and the loop
  ends without a read once \<open>stepCount\<close> has reached \<open>maxSteps\<close>. The result is the flag
  \<open>found\<close> and the state.
\<close>

function searchLoop :: "sensor \<Rightarrow> int \<Rightarrow> int \<Rightarrow> state \<Rightarrow> bool \<times> state" where
  "searchLoop sensor maxSteps stepCount s =
     (if stepCount < maxSteps
      then (case isAtHome sensor s of
              (h, s1) \<Rightarrow>
                if h then (True, s1)
                else searchLoop sensor maxSteps (stepCount + 1) (stepMotorForward s1))
      else (False, s))"
  by pat_completeness auto
termination
  by (relation "measure (\<lambda>(sensor, maxSteps, stepCount, s). nat (maxSteps - stepCount))") auto

text \<open>
  \<open>while (isAtHome() && sensorSteps < STEPS_PER_FLAP)\<close>: the sensor is read first at
  every test of the condition, also at the one that ends the loop.
\<close>

function exitLoop :: "sensor \<Rightarrow> int \<Rightarrow> state \<Rightarrow> state" where
  "exitLoop sensor sensorSteps s =
     (case isAtHome sensor s of
        (h, s1) \<Rightarrow>
          if h \<and> sensorSteps < STEPS_PER_FLAP
          then exitLoop sensor (sensorSteps + 1) (stepMotorForward s1)
          else s1)"
  by pat_completeness auto
termination
  by (relation "measure (\<lambda>(sensor, sensorSteps, s). nat (STEPS_PER_FLAP - sensorSteps))") auto

definition homeDisplay :: "sensor \<Rightarrow> state \<Rightarrow> outcome \<times> state" where
  "homeDisplay sensor s =
     (case isAtHome sensor s of
        (h, s1) \<Rightarrow>
          let s2 = (if h then moveSteps (STEPS_PER_FLAP * 2) s1 else s1);
              maxSteps = STEPS_PER_FLAP * NUM_FLAPS * 2
          in case searchLoop sensor maxSteps 0 s2 of
               (found, s3) \<Rightarrow>
                 if found
                 then (HomedOk,
                       (exitLoop sensor 0 s3)\<lparr>currentPosition := HOME_POSITION, isHomed := True\<rparr>)
                 else (Failed HomingFailed,
                       s3\<lparr>isHomed := False, currentPosition := - 1\<rparr>))"

section \<open>Positioning\<close>

text \<open>
  One pass through the body of the loop of \<open>goToPosition\<close>, at loop index \<open>i\<close>: the
  advance, the check of the sensor and the re-sync. The re-sync assigns the loop bound, so
  the body returns the bound \<open>flapsToMove\<close> together with the state.
\<close>

definition moveBody :: "sensor \<Rightarrow> int \<Rightarrow> int \<Rightarrow> int \<Rightarrow> state \<Rightarrow> int \<times> state" where
  "moveBody sensor targetPosition i flapsToMove s =
     (case isAtHome sensor (advanceOneFlap s) of
        (h, s1) \<Rightarrow>
          if h \<and> currentPosition s1 \<noteq> HOME_POSITION
          then (let s2 = s1\<lparr>currentPosition := HOME_POSITION, resyncs := Suc (resyncs s1)\<rparr>;
                    remaining =
                      (targetPosition - currentPosition s2 + NUM_FLAPS) smod NUM_FLAPS
                in (i + 1 + remaining, s2))
          else (flapsToMove, s1))"

text \<open>
  The loop itself. Its bound changes while it runs, so it need not end: the result is
  \<open>None\<close> when it does not.
\<close>

partial_function (option) moveLoop ::
  "sensor \<Rightarrow> int \<Rightarrow> int \<Rightarrow> int \<Rightarrow> state \<Rightarrow> state option" where
  "moveLoop sensor targetPosition i flapsToMove s =
     (if i < flapsToMove
      then (case moveBody sensor targetPosition i flapsToMove s of
              (flapsToMove1, s1) \<Rightarrow> moveLoop sensor targetPosition (i + 1) flapsToMove1 s1)
      else Some s)"

declare moveLoop.simps [code]

definition goToPosition :: "sensor \<Rightarrow> int \<Rightarrow> state \<Rightarrow> (outcome \<times> state) option" where
  "goToPosition sensor targetPosition s =
     (if \<not> isHomed s then Some (Failed NotHomed, s)
      else if targetPosition < 0 \<or> targetPosition \<ge> NUM_FLAPS
      then Some (Failed PositionOutOfRange, s)
      else let flapsToMove = (targetPosition - currentPosition s + NUM_FLAPS) smod NUM_FLAPS
           in if flapsToMove = 0 then Some (AlreadyAtTarget, s)
              else (case moveLoop sensor targetPosition 0 flapsToMove s of
                      None \<Rightarrow> None
                    | Some s1 \<Rightarrow> Some (Arrived, s1\<lparr>currentPosition := targetPosition\<rparr>)))"

section \<open>Characters\<close>

definition toUpper :: "char \<Rightarrow> char" where
  "toUpper c =
     (if (of_char c :: int) \<ge> of_char CHR ''a'' \<and> (of_char c :: int) \<le> of_char CHR ''z''
      then char_of ((of_char c :: int) - of_char CHR ''a'' + of_char CHR ''A'')
      else c)"

text \<open>The lookup loop of \<open>goToCharacter\<close>: the first index that holds \<open>c\<close>, or \<open>-1\<close>.\<close>

function findLoop :: "char \<Rightarrow> int \<Rightarrow> int" where
  "findLoop c i =
     (if i < NUM_CHARACTERS
      then (if CHARACTERS ! nat i = c then i else findLoop c (i + 1))
      else - 1)"
  by pat_completeness auto
termination
  by (relation "measure (\<lambda>(c, i). nat (NUM_CHARACTERS - i))") auto

definition goToCharacter :: "sensor \<Rightarrow> char \<Rightarrow> state \<Rightarrow> (outcome \<times> state) option" where
  "goToCharacter sensor c s =
     (let c1 = toUpper c;
          targetPosition = findLoop c1 0
      in if targetPosition < 0 then Some (Failed CharacterNotFound, s)
         else goToPosition sensor targetPosition s)"

section \<open>Status\<close>

record status =
  homed :: bool
  position :: "int option"
  character :: "char option"
  sensorAtHome :: bool

text \<open>
  What \<open>showStatus\<close> reports: the flag, the position and its character when the position
  is not negative, and a fresh read of the sensor. The read of \<open>CHARACTERS\<close> is inside
  the array for every position below \<open>NUM_FLAPS\<close>.
\<close>

definition showStatus :: "sensor \<Rightarrow> state \<Rightarrow> status \<times> state" where
  "showStatus sensor s =
     (case isAtHome sensor s of
        (h, s1) \<Rightarrow>
          (\<lparr>homed = isHomed s,
            position = (if currentPosition s \<ge> 0 then Some (currentPosition s) else None),
            character =
              (if currentPosition s \<ge> 0 then Some (CHARACTERS ! nat (currentPosition s))
               else None),
            sensorAtHome = h\<rparr>, s1))"

section \<open>The sketch for a step/direction driver\<close>

text \<open>
  The repository holds a second sketch, for a driver with step, direction and enable pins.
  It has the same \<open>NUM_FLAPS\<close>, \<open>HOME_POSITION\<close> and \<open>CHARACTERS\<close>, and
  \<open>STEPS_PER_FLAP = 48\<close>. It has no \<open>stepIndex\<close>: \<open>stepMotor\<close> pulses the step pin and
  changes no variable, so only the counter of its calls records it, and the writes to the
  enable pin are not modelled. Its \<open>advanceOneFlap\<close> and \<open>goToPosition\<close> are modelled
  here, with the suffix \<open>_sd\<close>.
\<close>

definition STEPS_PER_FLAP_sd :: int where
  "STEPS_PER_FLAP_sd = 48"

record state_sd =
  currentPosition_sd :: int
  isHomed_sd :: bool
  steps_sd :: nat
  flaps_sd :: nat
  reads_sd :: nat
  resyncs_sd :: nat

definition isAtHome_sd :: "sensor \<Rightarrow> state_sd \<Rightarrow> bool \<times> state_sd" where
  "isAtHome_sd sensor s = (sensor (reads_sd s), s\<lparr>reads_sd := Suc (reads_sd s)\<rparr>)"

definition stepMotor :: "state_sd \<Rightarrow> state_sd" where
  "stepMotor s = s\<lparr>steps_sd := Suc (steps_sd s)\<rparr>"

definition advanceOneFlap_sd :: "state_sd \<Rightarrow> state_sd" where
  "advanceOneFlap_sd s =
     (let s1 = (forLoop 0 STEPS_PER_FLAP_sd stepMotor s)\<lparr>flaps_sd := Suc (flaps_sd s)\<rparr>
      in if currentPosition_sd s1 \<ge> 0
         then s1\<lparr>currentPosition_sd := (currentPosition_sd s1 + 1) smod NUM_FLAPS\<rparr>
         else s1)"

definition moveBody_sd ::
  "sensor \<Rightarrow> int \<Rightarrow> int \<Rightarrow> int \<Rightarrow> state_sd \<Rightarrow> int \<times> state_sd" where
  "moveBody_sd sensor targetPosition i flapsToMove s =
     (case isAtHome_sd sensor (advanceOneFlap_sd s) of
        (h, s1) \<Rightarrow>
          if h \<and> currentPosition_sd s1 \<noteq> HOME_POSITION
          then (let s2 = s1\<lparr>currentPosition_sd := HOME_POSITION,
                             resyncs_sd := Suc (resyncs_sd s1)\<rparr>;
                    remaining =
                      (targetPosition - currentPosition_sd s2 + NUM_FLAPS) smod NUM_FLAPS
                in (i + 1 + remaining, s2))
          else (flapsToMove, s1))"

partial_function (option) moveLoop_sd ::
  "sensor \<Rightarrow> int \<Rightarrow> int \<Rightarrow> int \<Rightarrow> state_sd \<Rightarrow> state_sd option" where
  "moveLoop_sd sensor targetPosition i flapsToMove s =
     (if i < flapsToMove
      then (case moveBody_sd sensor targetPosition i flapsToMove s of
              (flapsToMove1, s1) \<Rightarrow> moveLoop_sd sensor targetPosition (i + 1) flapsToMove1 s1)
      else Some s)"

declare moveLoop_sd.simps [code]

definition goToPosition_sd ::
  "sensor \<Rightarrow> int \<Rightarrow> state_sd \<Rightarrow> (outcome \<times> state_sd) option" where
  "goToPosition_sd sensor targetPosition s =
     (if \<not> isHomed_sd s then Some (Failed NotHomed, s)
      else if targetPosition < 0 \<or> targetPosition \<ge> NUM_FLAPS
      then Some (Failed PositionOutOfRange, s)
      else let flapsToMove =
                 (targetPosition - currentPosition_sd s + NUM_FLAPS) smod NUM_FLAPS
           in if flapsToMove = 0 then Some (AlreadyAtTarget, s)
              else (case moveLoop_sd sensor targetPosition 0 flapsToMove s of
                      None \<Rightarrow> None
                    | Some s1 \<Rightarrow> Some (Arrived, s1\<lparr>currentPosition_sd := targetPosition\<rparr>)))"

section \<open>Simulated sensors\<close>

text \<open>
  Sensors for the scenarios: one that never reports at-home, and one that reports
  at-home at the reads \<open>a, \<dots>, b - 1\<close> and at no other.
\<close>

definition quietSensor :: sensor where
  "quietSensor k = False"

definition pulseSensor :: "nat \<Rightarrow> nat \<Rightarrow> sensor" where
  "pulseSensor a b k = (a \<le> k \<and> k < b)"

text \<open>A homed controller at rest on a given flap, with all counters at zero.\<close>

definition homedAt :: "int \<Rightarrow> state" where
  "homedAt p = \<lparr>currentPosition = p, isHomed = True, stepIndex = 0,
     fwd = 0, bwd = 0, flaps = 0, reads = 0, resyncs = 0\<rparr>"

definition homedAt_sd :: "int \<Rightarrow> state_sd" where
  "homedAt_sd p = \<lparr>currentPosition_sd = p, isHomed_sd = True,
     steps_sd = 0, flaps_sd = 0, reads_sd = 0, resyncs_sd = 0\<rparr>"

section \<open>The position invariant\<close>

text \<open>Position is unknown (\<open>-1\<close>) or the index of a flap.\<close>

definition positionValid :: "state \<Rightarrow> bool" where
  "positionValid s =
     (currentPosition s = - 1 \<or> (0 \<le> currentPosition s \<and> currentPosition s < NUM_FLAPS))"

section \<open>Basic facts\<close>

declare forLoop.simps [simp del] searchLoop.simps [simp del] exitLoop.simps [simp del]
  findLoop.simps [simp del]

lemma smod_nonneg: "0 \<le> a \<Longrightarrow> 0 < b \<Longrightarrow> (a::int) smod b = a mod b"
  by (simp add: signed_modulo_int_def sgn_if)

lemma flapsToMove_pos:
  fixes t p :: int
  assumes "0 \<le> p" "p < 40" "0 \<le> t" "t < 40" "t \<noteq> p"
  shows "0 < (t - p + 40) mod 40"
proof (cases "p \<le> t")
  case True
  then have "(t - p + 40) mod 40 = t - p" using assms by simp
  then show ?thesis using True assms by simp
next
  case False
  have "(t - p + 40) mod 40 = t - p + 40"
    by (rule mod_pos_pos_trivial) (use False assms in linarith)+
  then show ?thesis using assms by linarith
qed

lemma forLoop_preserves:
  assumes "\<And>t. f (body t) = f t"
  shows "f (forLoop i n body s) = f s"
  using assms
proof (induction i n body s rule: forLoop.induct)
  case (1 i n body s)
  show ?case
  proof (cases "i < n")
    case True
    then have "f (forLoop i n body s) = f (forLoop (i + 1) n body (body s))"
      by (simp add: forLoop.simps [of i])
    also have "\<dots> = f (body s)" using 1 True by simp
    finally show ?thesis using "1.prems" by simp
  next
    case False
    then show ?thesis by (simp add: forLoop.simps [of i])
  qed
qed

lemma forLoop_fwd:
  "fwd (forLoop i n stepMotorForward s) = fwd s + nat (n - i)"
proof (induction i n stepMotorForward s rule: forLoop.induct)
  case (1 i n s)
  show ?case
  proof (cases "i < n")
    case True
    then have "fwd (forLoop i n stepMotorForward s) = fwd (forLoop (i + 1) n stepMotorForward (stepMotorForward s))"
      by (simp add: forLoop.simps [of i])
    also have "\<dots> = fwd (stepMotorForward s) + nat (n - (i + 1))" using 1 True by simp
    finally show ?thesis using True by (simp add: stepMotorForward_def nat_diff_distrib)
  next
    case False
    then show ?thesis by (simp add: forLoop.simps [of i])
  qed
qed

lemma moveSteps_currentPosition [simp]: "currentPosition (moveSteps n s) = currentPosition s"
  by (simp add: moveSteps_def forLoop_preserves stepMotorForward_def stepMotorBackward_def)

lemma moveSteps_isHomed [simp]: "isHomed (moveSteps n s) = isHomed s"
  by (simp add: moveSteps_def forLoop_preserves stepMotorForward_def stepMotorBackward_def)

lemma moveSteps_reads [simp]: "reads (moveSteps n s) = reads s"
  by (simp add: moveSteps_def forLoop_preserves stepMotorForward_def stepMotorBackward_def)

lemma moveSteps_resyncs [simp]: "resyncs (moveSteps n s) = resyncs s"
  by (simp add: moveSteps_def forLoop_preserves stepMotorForward_def stepMotorBackward_def)

lemma moveSteps_fwd: "0 < n \<Longrightarrow> fwd (moveSteps n s) = fwd s + nat n"
  by (simp add: moveSteps_def forLoop_fwd)

lemma moveSteps_bwd: "0 < n \<Longrightarrow> bwd (moveSteps n s) = bwd s"
  by (simp add: moveSteps_def forLoop_preserves stepMotorForward_def)

lemma advanceOneFlap_isHomed [simp]: "isHomed (advanceOneFlap s) = isHomed s"
  by (simp add: advanceOneFlap_def Let_def)

lemma advanceOneFlap_reads [simp]: "reads (advanceOneFlap s) = reads s"
  by (simp add: advanceOneFlap_def Let_def)

lemma advanceOneFlap_resyncs [simp]: "resyncs (advanceOneFlap s) = resyncs s"
  by (simp add: advanceOneFlap_def Let_def)

lemma advanceOneFlap_fwd [simp]: "fwd (advanceOneFlap s) = fwd s + 51"
  by (simp add: advanceOneFlap_def Let_def moveSteps_fwd STEPS_PER_FLAP_def)

lemma advanceOneFlap_flaps [simp]: "flaps (advanceOneFlap s) = Suc (flaps s)"
  by (simp add: advanceOneFlap_def Let_def)

lemma advanceOneFlap_bwd [simp]: "bwd (advanceOneFlap s) = bwd s"
  by (simp add: advanceOneFlap_def Let_def moveSteps_bwd STEPS_PER_FLAP_def)

lemma advanceOneFlap_currentPosition:
  "currentPosition (advanceOneFlap s) =
     (if 0 \<le> currentPosition s then (currentPosition s + 1) mod 40 else currentPosition s)"
  by (simp add: advanceOneFlap_def Let_def NUM_FLAPS_def smod_nonneg)

lemma moveLoop_quiet:
  assumes "\<forall>k < nat (n - i). \<not> sensor (reads s + k)"
  shows "\<exists>s'. moveLoop sensor t i n s = Some s'
           \<and> fwd s' = fwd s + 51 * nat (n - i) \<and> bwd s' = bwd s
           \<and> flaps s' = flaps s + nat (n - i)
           \<and> reads s' = reads s + nat (n - i)
           \<and> resyncs s' = resyncs s \<and> isHomed s' = isHomed s
           \<and> currentPosition s' =
               (if 0 \<le> currentPosition s \<and> i < n then (currentPosition s + (n - i)) mod 40
                else currentPosition s)"
  using assms
proof (induction "nat (n - i)" arbitrary: i s)
  case 0
  then have "\<not> i < n" by simp
  then show ?case by (simp add: moveLoop.simps [of _ _ i])
next
  case (Suc m)
  then have lt: "i < n" and m: "m = nat (n - (i + 1))" by linarith+
  define s1 where "s1 = (advanceOneFlap s)\<lparr>reads := Suc (reads s)\<rparr>"
  have quiet0: "\<not> sensor (reads s)" using Suc.prems lt by (auto dest: spec [of _ 0])
  have step: "moveLoop sensor t i n s = moveLoop sensor t (i + 1) n s1"
    using lt quiet0 by (simp add: moveLoop.simps [of _ _ i] moveBody_def isAtHome_def s1_def)
  have "\<forall>k < nat (n - (i + 1)). \<not> sensor (reads s1 + k)"
  proof (intro allI impI)
    fix k assume "k < nat (n - (i + 1))"
    then have "Suc k < nat (n - i)" by linarith
    then have "\<not> sensor (reads s + Suc k)" using Suc.prems by blast
    then show "\<not> sensor (reads s1 + k)" by (simp add: s1_def)
  qed
  from Suc.hyps(1) [OF m this] obtain s' where
    r: "moveLoop sensor t (i + 1) n s1 = Some s'"
      "fwd s' = fwd s1 + 51 * nat (n - (i + 1))" "bwd s' = bwd s1"
      "flaps s' = flaps s1 + nat (n - (i + 1))"
      "reads s' = reads s1 + nat (n - (i + 1))"
      "resyncs s' = resyncs s1" "isHomed s' = isHomed s1"
      "currentPosition s' =
               (if 0 \<le> currentPosition s1 \<and> i + 1 < n then (currentPosition s1 + (n - (i + 1))) mod 40
                else currentPosition s1)"
    by blast
  have cp1: "currentPosition s1 = (if 0 \<le> currentPosition s then (currentPosition s + 1) mod 40 else currentPosition s)"
    by (simp add: s1_def advanceOneFlap_currentPosition)
  have "currentPosition s' = (if 0 \<le> currentPosition s then (currentPosition s + (n - i)) mod 40
                else currentPosition s)"
  proof (cases "0 \<le> currentPosition s")
    case True
    then have c: "currentPosition s1 = (currentPosition s + 1) mod 40" "0 \<le> currentPosition s1"
      using cp1 by simp_all
    show ?thesis
    proof (cases "i + 1 < n")
      case True
      have "(currentPosition s1 + (n - (i + 1))) mod 40 = (currentPosition s + 1 + (n - (i + 1))) mod 40"
        unfolding c by (simp add: mod_add_left_eq)
      then show ?thesis using r(8) c True \<open>0 \<le> currentPosition s\<close> by (simp add: algebra_simps)
    next
      case False
      then have "n = i + 1" using lt by simp
      then show ?thesis using r(8) c \<open>0 \<le> currentPosition s\<close> by simp
    qed
  next
    case False
    then show ?thesis using r(8) cp1 by simp
  qed
  moreover have "fwd s' = fwd s + 51 * nat (n - i)"
    using r(2) lt by (simp add: s1_def nat_diff_distrib)
  moreover have "flaps s' = flaps s + nat (n - i)"
    using r(4) lt by (simp add: s1_def nat_diff_distrib)
  moreover have "reads s' = reads s + nat (n - i)"
    using r(5) lt by (simp add: s1_def nat_diff_distrib)
  ultimately show ?case using r step lt by (simp add: s1_def)
qed

subsection \<open>The step/direction sketch\<close>

lemma forLoop_steps_sd:
  "steps_sd (forLoop i n stepMotor s) = steps_sd s + nat (n - i)"
proof (induction i n stepMotor s rule: forLoop.induct)
  case (1 i n s)
  show ?case
  proof (cases "i < n")
    case True
    then have "steps_sd (forLoop i n stepMotor s)
        = steps_sd (forLoop (i + 1) n stepMotor (stepMotor s))"
      by (simp add: forLoop.simps [of i])
    also have "\<dots> = steps_sd (stepMotor s) + nat (n - (i + 1))" using 1 True by simp
    finally show ?thesis using True by (simp add: stepMotor_def nat_diff_distrib)
  next
    case False
    then show ?thesis by (simp add: forLoop.simps [of i])
  qed
qed

lemma advanceOneFlap_sd_isHomed [simp]: "isHomed_sd (advanceOneFlap_sd s) = isHomed_sd s"
  by (simp add: advanceOneFlap_sd_def Let_def forLoop_preserves stepMotor_def)

lemma advanceOneFlap_sd_reads [simp]: "reads_sd (advanceOneFlap_sd s) = reads_sd s"
  by (simp add: advanceOneFlap_sd_def Let_def forLoop_preserves stepMotor_def)

lemma advanceOneFlap_sd_resyncs [simp]: "resyncs_sd (advanceOneFlap_sd s) = resyncs_sd s"
  by (simp add: advanceOneFlap_sd_def Let_def forLoop_preserves stepMotor_def)

lemma advanceOneFlap_sd_flaps [simp]: "flaps_sd (advanceOneFlap_sd s) = Suc (flaps_sd s)"
  by (simp add: advanceOneFlap_sd_def Let_def)

lemma advanceOneFlap_sd_steps [simp]: "steps_sd (advanceOneFlap_sd s) = steps_sd s + 48"
  by (simp add: advanceOneFlap_sd_def Let_def forLoop_steps_sd STEPS_PER_FLAP_sd_def)

lemma advanceOneFlap_sd_currentPosition:
  "currentPosition_sd (advanceOneFlap_sd s) =
     (if 0 \<le> currentPosition_sd s then (currentPosition_sd s + 1) mod 40
      else currentPosition_sd s)"
  by (simp add: advanceOneFlap_sd_def Let_def NUM_FLAPS_def smod_nonneg forLoop_preserves
      stepMotor_def)

lemma moveLoop_sd_quiet:
  assumes "\<forall>k < nat (n - i). \<not> sensor (reads_sd s + k)"
  shows "\<exists>s'. moveLoop_sd sensor t i n s = Some s'
           \<and> steps_sd s' = steps_sd s + 48 * nat (n - i)
           \<and> flaps_sd s' = flaps_sd s + nat (n - i)
           \<and> reads_sd s' = reads_sd s + nat (n - i)
           \<and> resyncs_sd s' = resyncs_sd s \<and> isHomed_sd s' = isHomed_sd s
           \<and> currentPosition_sd s' =
               (if 0 \<le> currentPosition_sd s \<and> i < n then (currentPosition_sd s + (n - i)) mod 40
                else currentPosition_sd s)"
  using assms
proof (induction "nat (n - i)" arbitrary: i s)
  case 0
  then have "\<not> i < n" by simp
  then show ?case by (simp add: moveLoop_sd.simps [of _ _ i])
next
  case (Suc m)
  then have lt: "i < n" and m: "m = nat (n - (i + 1))" by linarith+
  define s1 where "s1 = (advanceOneFlap_sd s)\<lparr>reads_sd := Suc (reads_sd s)\<rparr>"
  have quiet0: "\<not> sensor (reads_sd s)" using Suc.prems lt by (auto dest: spec [of _ 0])
  have step: "moveLoop_sd sensor t i n s = moveLoop_sd sensor t (i + 1) n s1"
    using lt quiet0 by (simp add: moveLoop_sd.simps [of _ _ i] moveBody_sd_def isAtHome_sd_def s1_def)
  have "\<forall>k < nat (n - (i + 1)). \<not> sensor (reads_sd s1 + k)"
  proof (intro allI impI)
    fix k assume "k < nat (n - (i + 1))"
    then have "Suc k < nat (n - i)" by linarith
    then have "\<not> sensor (reads_sd s + Suc k)" using Suc.prems by blast
    then show "\<not> sensor (reads_sd s1 + k)" by (simp add: s1_def)
  qed
  from Suc.hyps(1) [OF m this] obtain s' where
    r: "moveLoop_sd sensor t (i + 1) n s1 = Some s'"
      "steps_sd s' = steps_sd s1 + 48 * nat (n - (i + 1))"
      "flaps_sd s' = flaps_sd s1 + nat (n - (i + 1))"
      "reads_sd s' = reads_sd s1 + nat (n - (i + 1))"
      "resyncs_sd s' = resyncs_sd s1" "isHomed_sd s' = isHomed_sd s1"
      "currentPosition_sd s' =
               (if 0 \<le> currentPosition_sd s1 \<and> i + 1 < n then (currentPosition_sd s1 + (n - (i + 1))) mod 40
                else currentPosition_sd s1)"
    by blast
  have cp1: "currentPosition_sd s1 = (if 0 \<le> currentPosition_sd s then (currentPosition_sd s + 1) mod 40 else currentPosition_sd s)"
    by (simp add: s1_def advanceOneFlap_sd_currentPosition)
  have "currentPosition_sd s' = (if 0 \<le> currentPosition_sd s then (currentPosition_sd s + (n - i)) mod 40
                else currentPosition_sd s)"
  proof (cases "0 \<le> currentPosition_sd s")
    case True
    then have c: "currentPosition_sd s1 = (currentPosition_sd s + 1) mod 40" "0 \<le> currentPosition_sd s1"
      using cp1 by simp_all
    show ?thesis
    proof (cases "i + 1 < n")
      case True
      have "(currentPosition_sd s1 + (n - (i + 1))) mod 40 = (currentPosition_sd s + 1 + (n - (i + 1))) mod 40"
        unfolding c by (simp add: mod_add_left_eq)
      then show ?thesis using r(7) c True \<open>0 \<le> currentPosition_sd s\<close> by (simp add: algebra_simps)
    next
      case False
      then have "n = i + 1" using lt by simp
      then show ?thesis using r(7) c \<open>0 \<le> currentPosition_sd s\<close> by simp
    qed
  next
    case False
    then show ?thesis using r(7) cp1 by simp
  qed
  moreover have "steps_sd s' = steps_sd s + 48 * nat (n - i)"
    using r(2) lt by (simp add: s1_def nat_diff_distrib)
  moreover have "flaps_sd s' = flaps_sd s + nat (n - i)"
    using r(3) lt by (simp add: s1_def nat_diff_distrib)
  moreover have "reads_sd s' = reads_sd s + nat (n - i)"
    using r(4) lt by (simp add: s1_def nat_diff_distrib)
  ultimately show ?case using r step lt by (simp add: s1_def)
qed

subsection \<open>The loops of homing\<close>

lemma stepMotorForward_fields [simp]:
  "currentPosition (stepMotorForward s) = currentPosition s"
  "isHomed (stepMotorForward s) = isHomed s"
  "fwd (stepMotorForward s) = Suc (fwd s)"
  "bwd (stepMotorForward s) = bwd s"
  "flaps (stepMotorForward s) = flaps s"
  "reads (stepMotorForward s) = reads s"
  "resyncs (stepMotorForward s) = resyncs s"
  by (simp_all add: stepMotorForward_def)

lemma searchLoop_quiet:
  assumes "\<forall>k < nat (m - c). \<not> sensor (reads s + k)"
  shows "\<exists>s'. searchLoop sensor m c s = (False, s')
           \<and> fwd s' = fwd s + nat (m - c) \<and> bwd s' = bwd s \<and> flaps s' = flaps s
           \<and> reads s' = reads s + nat (m - c) \<and> resyncs s' = resyncs s"
  using assms
proof (induction "nat (m - c)" arbitrary: c s)
  case 0
  then have "\<not> c < m" by simp
  then show ?case by (simp add: searchLoop.simps [of _ _ c])
next
  case (Suc d)
  then have lt: "c < m" and d: "d = nat (m - (c + 1))" by linarith+
  define s1 where "s1 = stepMotorForward (s\<lparr>reads := Suc (reads s)\<rparr>)"
  have "\<not> sensor (reads s)" using Suc.prems lt by (auto dest: spec [of _ 0])
  then have step: "searchLoop sensor m c s = searchLoop sensor m (c + 1) s1"
    using lt by (simp add: searchLoop.simps [of _ _ c] isAtHome_def s1_def)
  have "\<forall>k < nat (m - (c + 1)). \<not> sensor (reads s1 + k)"
  proof (intro allI impI)
    fix k assume "k < nat (m - (c + 1))"
    then have "Suc k < nat (m - c)" by linarith
    then have "\<not> sensor (reads s + Suc k)" using Suc.prems by blast
    then show "\<not> sensor (reads s1 + k)" by (simp add: s1_def)
  qed
  from Suc.hyps(1) [OF d this] obtain s' where
    r: "searchLoop sensor m (c + 1) s1 = (False, s')"
      "fwd s' = fwd s1 + nat (m - (c + 1))" "bwd s' = bwd s1" "flaps s' = flaps s1"
      "reads s' = reads s1 + nat (m - (c + 1))" "resyncs s' = resyncs s1"
    by blast
  have "fwd s' = fwd s + nat (m - c)" using r(2) lt by (simp add: s1_def nat_diff_distrib)
  moreover have "reads s' = reads s + nat (m - c)"
    using r(5) lt by (simp add: s1_def nat_diff_distrib)
  ultimately show ?case using r step by (simp add: s1_def)
qed

lemma searchLoop_found:
  assumes "k < nat (m - c)" and "sensor (reads s + k)" and "\<forall>j < k. \<not> sensor (reads s + j)"
  shows "\<exists>s'. searchLoop sensor m c s = (True, s')
           \<and> fwd s' = fwd s + k \<and> bwd s' = bwd s \<and> flaps s' = flaps s
           \<and> reads s' = reads s + Suc k \<and> resyncs s' = resyncs s"
  using assms
proof (induction k arbitrary: c s)
  case 0
  then have "c < m" and "sensor (reads s)" by simp_all
  then show ?case by (simp add: searchLoop.simps [of _ _ c] isAtHome_def)
next
  case (Suc k)
  then have lt: "c < m" and k: "k < nat (m - (c + 1))" by linarith+
  define s1 where "s1 = stepMotorForward (s\<lparr>reads := Suc (reads s)\<rparr>)"
  have "\<not> sensor (reads s)" using Suc.prems(3) by (auto dest: spec [of _ 0])
  then have step: "searchLoop sensor m c s = searchLoop sensor m (c + 1) s1"
    using lt by (simp add: searchLoop.simps [of _ _ c] isAtHome_def s1_def)
  have at: "sensor (reads s1 + k)" using Suc.prems(2) by (simp add: s1_def)
  have "\<forall>j < k. \<not> sensor (reads s1 + j)"
  proof (intro allI impI)
    fix j assume "j < k"
    then have "Suc j < Suc k" by simp
    then have "\<not> sensor (reads s + Suc j)" using Suc.prems(3) by blast
    then show "\<not> sensor (reads s1 + j)" by (simp add: s1_def)
  qed
  from Suc.IH [OF k at this] obtain s' where
    r: "searchLoop sensor m (c + 1) s1 = (True, s')"
      "fwd s' = fwd s1 + k" "bwd s' = bwd s1" "flaps s' = flaps s1"
      "reads s' = reads s1 + Suc k" "resyncs s' = resyncs s1"
    by blast
  then show ?case using step by (simp add: s1_def)
qed

lemma exitLoop_steps:
  assumes "c \<le> STEPS_PER_FLAP"
  shows "\<exists>e. e \<le> nat (STEPS_PER_FLAP - c)
           \<and> (\<forall>j < e. sensor (reads s + j))
           \<and> (e = nat (STEPS_PER_FLAP - c) \<or> \<not> sensor (reads s + e))
           \<and> fwd (exitLoop sensor c s) = fwd s + e
           \<and> bwd (exitLoop sensor c s) = bwd s
           \<and> flaps (exitLoop sensor c s) = flaps s
           \<and> reads (exitLoop sensor c s) = reads s + Suc e
           \<and> resyncs (exitLoop sensor c s) = resyncs s"
  using assms
proof (induction "nat (STEPS_PER_FLAP - c)" arbitrary: c s)
  case 0
  then have "\<not> c < STEPS_PER_FLAP" by simp
  then have "exitLoop sensor c s = s\<lparr>reads := Suc (reads s)\<rparr>"
    by (simp add: exitLoop.simps [of _ c] isAtHome_def)
  then show ?case using 0 by simp
next
  case (Suc d)
  then have lt: "c < STEPS_PER_FLAP" and d: "d = nat (STEPS_PER_FLAP - (c + 1))"
    and le: "c + 1 \<le> STEPS_PER_FLAP" by linarith+
  show ?case
  proof (cases "sensor (reads s)")
    case False
    then have "exitLoop sensor c s = s\<lparr>reads := Suc (reads s)\<rparr>"
      by (simp add: exitLoop.simps [of _ c] isAtHome_def)
    then show ?thesis using False by (intro exI [of _ 0]) simp
  next
    case True
    define s1 where "s1 = stepMotorForward (s\<lparr>reads := Suc (reads s)\<rparr>)"
    have step: "exitLoop sensor c s = exitLoop sensor (c + 1) s1"
      using True lt by (simp add: exitLoop.simps [of _ c] isAtHome_def s1_def)
    from Suc.hyps(1) [OF d le, of s1] obtain e where
      r: "e \<le> nat (STEPS_PER_FLAP - (c + 1))" "\<forall>j < e. sensor (reads s1 + j)"
        "e = nat (STEPS_PER_FLAP - (c + 1)) \<or> \<not> sensor (reads s1 + e)"
        "fwd (exitLoop sensor (c + 1) s1) = fwd s1 + e"
        "bwd (exitLoop sensor (c + 1) s1) = bwd s1"
        "flaps (exitLoop sensor (c + 1) s1) = flaps s1"
        "reads (exitLoop sensor (c + 1) s1) = reads s1 + Suc e"
        "resyncs (exitLoop sensor (c + 1) s1) = resyncs s1"
      by blast
    have a: "Suc e \<le> nat (STEPS_PER_FLAP - c)" using r(1) lt by linarith
    have b: "\<forall>j < Suc e. sensor (reads s + j)"
    proof (intro allI impI)
      fix j assume j: "j < Suc e"
      show "sensor (reads s + j)"
      proof (cases j)
        case 0
        then show ?thesis using True by simp
      next
        case (Suc i)
        then have "i < e" using j by simp
        then have "sensor (reads s1 + i)" using r(2) by blast
        then show ?thesis using Suc by (simp add: s1_def)
      qed
    qed
    have c: "Suc e = nat (STEPS_PER_FLAP - c) \<or> \<not> sensor (reads s + Suc e)"
      using r(3) lt by (auto simp: s1_def)
    show ?thesis
      using a b c r(4-8) step by (intro exI [of _ "Suc e"]) (simp add: s1_def)
  qed
qed

subsection \<open>The body of the move loop\<close>

lemma moveBody_quiet:
  "\<not> sensor (reads s) \<Longrightarrow>
     moveBody sensor t i n s = (n, (advanceOneFlap s)\<lparr>reads := Suc (reads s)\<rparr>)"
  by (simp add: moveBody_def isAtHome_def)

lemma moveBody_expected:
  "currentPosition (advanceOneFlap s) = HOME_POSITION \<Longrightarrow>
     moveBody sensor t i n s = (n, (advanceOneFlap s)\<lparr>reads := Suc (reads s)\<rparr>)"
  by (simp add: moveBody_def isAtHome_def)

lemma moveBody_resync:
  "sensor (reads s) \<Longrightarrow> currentPosition (advanceOneFlap s) \<noteq> HOME_POSITION \<Longrightarrow>
     moveBody sensor t i n s =
       (i + 1 + (t - HOME_POSITION + NUM_FLAPS) smod NUM_FLAPS,
        (advanceOneFlap s)\<lparr>reads := Suc (reads s), currentPosition := HOME_POSITION,
          resyncs := Suc (resyncs s)\<rparr>)"
  by (simp add: moveBody_def isAtHome_def Let_def)

lemma moveLoop_step:
  "i < n \<Longrightarrow> moveBody sensor t i n s = (n1, s1) \<Longrightarrow>
     moveLoop sensor t i n s = moveLoop sensor t (i + 1) n1 s1"
  by (simp add: moveLoop.simps [of _ _ i])

subsection \<open>The lookup of a character beyond the drum\<close>

lemma findLoop_bang: "findLoop (toUpper CHR ''!'') 0 = 40"
  by code_simp

subsection \<open>The position invariant\<close>

lemma positionValid_advanceOneFlap:
  "positionValid s \<Longrightarrow> positionValid (advanceOneFlap s)"
  by (auto simp: positionValid_def advanceOneFlap_currentPosition NUM_FLAPS_def)

lemma positionValid_moveBody:
  "positionValid s \<Longrightarrow> positionValid (snd (moveBody sensor t i n s))"
  using positionValid_advanceOneFlap [of s]
  by (auto simp: moveBody_def isAtHome_def Let_def positionValid_def HOME_POSITION_def
      NUM_FLAPS_def)

lemma positionValid_moveLoop_imp:
  assumes "moveLoop sensor t i n s = Some s'"
  shows "positionValid s \<longrightarrow> positionValid s'"
proof (rule moveLoop.raw_induct
    [where P = "\<lambda>sensor t i n s s'. positionValid s \<longrightarrow> positionValid s'", OF _ assms])
  fix loop :: "sensor \<Rightarrow> int \<Rightarrow> int \<Rightarrow> int \<Rightarrow> state \<Rightarrow> state option"
  fix sensor t i n s s'
  assume IH: "\<And>sensor t i n s s'. loop sensor t i n s = Some s'
      \<Longrightarrow> positionValid s \<longrightarrow> positionValid s'"
  assume body: "(if i < n
      then case moveBody sensor t i n s of (n1, s1) \<Rightarrow> loop sensor t (i + 1) n1 s1
      else Some s) = Some s'"
  show "positionValid s \<longrightarrow> positionValid s'"
  proof
    assume v: "positionValid s"
    show "positionValid s'"
    proof (cases "i < n")
      case True
      obtain n1 s1 where b: "moveBody sensor t i n s = (n1, s1)"
        by (cases "moveBody sensor t i n s")
      have "positionValid s1" using positionValid_moveBody [OF v, of sensor t i n] b by simp
      moreover have "loop sensor t (i + 1) n1 s1 = Some s'" using body True b by simp
      ultimately show ?thesis using IH by blast
    next
      case False
      then show ?thesis using body v by simp
    qed
  qed
qed

lemma positionValid_moveLoop:
  "moveLoop sensor t i n s = Some s' \<Longrightarrow> positionValid s \<Longrightarrow> positionValid s'"
  using positionValid_moveLoop_imp by blast

lemma positionValid_goToPosition:
  assumes "goToPosition sensor t s = Some (out, s')" and "positionValid s"
  shows "positionValid s'"
  using assms
  by (auto simp: goToPosition_def Let_def positionValid_def split: if_splits option.splits)

lemma positionValid_homeDisplay: "positionValid (snd (homeDisplay sensor s))"
  by (simp add: homeDisplay_def isAtHome_def Let_def positionValid_def HOME_POSITION_def
      NUM_FLAPS_def split: prod.splits)

section \<open>Moves without drift\<close>

text \<open>
  C1. From a homed state with Position \<open>p\<close> in \<open>[0, NUM_FLAPS)\<close>, and for a target in
  \<open>[0, NUM_FLAPS)\<close>, a call of \<open>goToPosition\<close> during which the sensor never reports
  at-home returns, has made exactly \<open>(target - p + NUM_FLAPS) mod NUM_FLAPS\<close> single-flap
  advances (each of \<open>STEPS_PER_FLAP\<close> forward steps, none backward), and ends with
  Position equal to the target and Homed true. The position the loop has tracked is the
  target already, before the final assignment.
\<close>

theorem goToPosition_quiet_move:
  assumes "isHomed s" and "0 \<le> currentPosition s" and "currentPosition s < NUM_FLAPS"
    and "0 \<le> target" and "target < NUM_FLAPS"
    and "\<forall>k < nat ((target - currentPosition s + NUM_FLAPS) mod NUM_FLAPS).
           \<not> sensor (reads s + k)"
  shows "\<exists>out s'. goToPosition sensor target s = Some (out, s')
           \<and> currentPosition s' = target \<and> isHomed s'
           \<and> flaps s' = flaps s + nat ((target - currentPosition s + NUM_FLAPS) mod NUM_FLAPS)
           \<and> fwd s' = fwd s
                + nat STEPS_PER_FLAP * nat ((target - currentPosition s + NUM_FLAPS) mod NUM_FLAPS)
           \<and> bwd s' = bwd s \<and> resyncs s' = resyncs s
           \<and> (if target = currentPosition s then out = AlreadyAtTarget \<and> s' = s
               else out = Arrived
                 \<and> moveLoop sensor target 0
                      ((target - currentPosition s + NUM_FLAPS) mod NUM_FLAPS) s = Some s')"
proof -
  define n where "n = (target - currentPosition s + 40) mod 40"
  have n_smod: "(target - currentPosition s + NUM_FLAPS) smod NUM_FLAPS = n"
    using assms(2-5) by (simp add: n_def NUM_FLAPS_def smod_nonneg)
  have n_mod: "(target - currentPosition s + NUM_FLAPS) mod NUM_FLAPS = n"
    by (simp add: n_def NUM_FLAPS_def)
  have n0: "0 \<le> n" by (simp add: n_def)
  show ?thesis
  proof (cases "target = currentPosition s")
    case True
    then have "n = 0" by (simp add: n_def)
    then show ?thesis
      using True assms(1-5) n_smod n_mod by (simp add: goToPosition_def Let_def)
  next
    case False
    then have npos: "0 < n" using assms(2-5) unfolding n_def NUM_FLAPS_def
      by (intro flapsToMove_pos) simp_all
    have "\<forall>k < nat (n - 0). \<not> sensor (reads s + k)" using assms(6) n_mod by simp
    from moveLoop_quiet [OF this, of target] obtain s1 where
      r: "moveLoop sensor target 0 n s = Some s1"
        "fwd s1 = fwd s + 51 * nat n" "bwd s1 = bwd s" "flaps s1 = flaps s + nat n"
        "resyncs s1 = resyncs s" "isHomed s1 = isHomed s"
        "currentPosition s1 = (currentPosition s + n) mod 40"
      using npos assms(2) by auto
    have "(currentPosition s + n) mod 40 = target mod 40"
      unfolding n_def by (simp add: mod_add_right_eq)
    then have cp: "currentPosition s1 = target"
      using r(7) assms(4,5) by (simp add: NUM_FLAPS_def)
    then have same: "s1\<lparr>currentPosition := target\<rparr> = s1" by simp
    have "goToPosition sensor target s = Some (Arrived, s1)"
      using assms(1,4,5) npos r(1) n_smod same by (simp add: goToPosition_def Let_def)
    then show ?thesis
      using False cp r n_mod assms(1) by (simp add: STEPS_PER_FLAP_def)
  qed
qed

theorem goToPosition_quiet_move_witness:
  "\<exists>out s'. goToPosition quietSensor 10 (homedAt 5) = Some (out, s')
     \<and> currentPosition s' = 10 \<and> isHomed s' \<and> flaps s' = 5 \<and> fwd s' = 255
     \<and> bwd s' = 0 \<and> resyncs s' = 0 \<and> out = Arrived
     \<and> moveLoop quietSensor 10 0 5 (homedAt 5) = Some s'"
  using goToPosition_quiet_move [of "homedAt 5" 10 quietSensor]
  by (simp add: homedAt_def quietSensor_def NUM_FLAPS_def STEPS_PER_FLAP_def)

text \<open>
  The step/direction sketch behaves in the same way, with 48 steps for each advance.
\<close>

lemma goToPosition_sd_quiet_move:
  assumes "isHomed_sd s" and "0 \<le> currentPosition_sd s" and "currentPosition_sd s < NUM_FLAPS"
    and "0 \<le> target" and "target < NUM_FLAPS"
    and "\<forall>k < nat ((target - currentPosition_sd s + NUM_FLAPS) mod NUM_FLAPS).
           \<not> sensor (reads_sd s + k)"
  shows "\<exists>out s'. goToPosition_sd sensor target s = Some (out, s')
           \<and> currentPosition_sd s' = target \<and> isHomed_sd s'
           \<and> flaps_sd s' = flaps_sd s + nat ((target - currentPosition_sd s + NUM_FLAPS) mod NUM_FLAPS)
           \<and> steps_sd s' = steps_sd s
                + nat STEPS_PER_FLAP_sd * nat ((target - currentPosition_sd s + NUM_FLAPS) mod NUM_FLAPS)
           \<and> resyncs_sd s' = resyncs_sd s
           \<and> (if target = currentPosition_sd s then out = AlreadyAtTarget \<and> s' = s
               else out = Arrived
                 \<and> moveLoop_sd sensor target 0
                      ((target - currentPosition_sd s + NUM_FLAPS) mod NUM_FLAPS) s = Some s')"
proof -
  define n where "n = (target - currentPosition_sd s + 40) mod 40"
  have n_smod: "(target - currentPosition_sd s + NUM_FLAPS) smod NUM_FLAPS = n"
    using assms(2-5) by (simp add: n_def NUM_FLAPS_def smod_nonneg)
  have n_mod: "(target - currentPosition_sd s + NUM_FLAPS) mod NUM_FLAPS = n"
    by (simp add: n_def NUM_FLAPS_def)
  have n0: "0 \<le> n" by (simp add: n_def)
  show ?thesis
  proof (cases "target = currentPosition_sd s")
    case True
    then have "n = 0" by (simp add: n_def)
    then show ?thesis
      using True assms(1-5) n_smod n_mod by (simp add: goToPosition_sd_def Let_def)
  next
    case False
    then have npos: "0 < n" using assms(2-5) unfolding n_def NUM_FLAPS_def
      by (intro flapsToMove_pos) simp_all
    have "\<forall>k < nat (n - 0). \<not> sensor (reads_sd s + k)" using assms(6) n_mod by simp
    from moveLoop_sd_quiet [OF this, of target] obtain s1 where
      r: "moveLoop_sd sensor target 0 n s = Some s1"
        "steps_sd s1 = steps_sd s + 48 * nat n" "flaps_sd s1 = flaps_sd s + nat n"
        "resyncs_sd s1 = resyncs_sd s" "isHomed_sd s1 = isHomed_sd s"
        "currentPosition_sd s1 = (currentPosition_sd s + n) mod 40"
      using npos assms(2) by auto
    have "(currentPosition_sd s + n) mod 40 = target mod 40"
      unfolding n_def by (simp add: mod_add_right_eq)
    then have cp: "currentPosition_sd s1 = target"
      using r(6) assms(4,5) by (simp add: NUM_FLAPS_def)
    then have same: "s1\<lparr>currentPosition_sd := target\<rparr> = s1" by simp
    have "goToPosition_sd sensor target s = Some (Arrived, s1)"
      using assms(1,4,5) npos r(1) n_smod same by (simp add: goToPosition_sd_def Let_def)
    then show ?thesis
      using False cp r n_mod assms(1) by (simp add: STEPS_PER_FLAP_sd_def)
  qed
qed

lemma goToPosition_sd_quiet_move_example:
  "\<exists>out s'. goToPosition_sd quietSensor 10 (homedAt_sd 5) = Some (out, s')
     \<and> currentPosition_sd s' = 10 \<and> isHomed_sd s' \<and> flaps_sd s' = 5 \<and> steps_sd s' = 240
     \<and> resyncs_sd s' = 0 \<and> out = Arrived"
  using goToPosition_sd_quiet_move [of "homedAt_sd 5" 10 quietSensor]
  by (auto simp: homedAt_sd_def quietSensor_def NUM_FLAPS_def STEPS_PER_FLAP_sd_def)

text \<open>
  C8. From a homed state with Position \<open>p\<close> in \<open>[0, NUM_FLAPS)\<close>, \<open>goToPosition(p)\<close>
  returns at once on the path "Already at target position" and leaves the whole state as
  it was: no step of the motor, no read of the sensor, Position and Homed unchanged.
\<close>

theorem goToPosition_same_position:
  assumes "isHomed s" and "0 \<le> currentPosition s" and "currentPosition s < NUM_FLAPS"
  shows "goToPosition sensor (currentPosition s) s = Some (AlreadyAtTarget, s)"
  using assms by (simp add: goToPosition_def Let_def NUM_FLAPS_def signed_modulo_int_def)

theorem goToPosition_same_position_witness:
  "isHomed (homedAt 7) \<and> 0 \<le> currentPosition (homedAt 7)
     \<and> currentPosition (homedAt 7) < NUM_FLAPS
     \<and> goToPosition (pulseSensor 0 9) 7 (homedAt 7) = Some (AlreadyAtTarget, homedAt 7)"
  using goToPosition_same_position [of "homedAt 7" "pulseSensor 0 9"]
  by (simp add: homedAt_def NUM_FLAPS_def)

section \<open>Rejected calls\<close>

text \<open>
  C5. A call of \<open>goToPosition\<close> in a state that is not homed fails as not homed; a call
  in a homed state with a target below \<open>0\<close> or not below \<open>NUM_FLAPS\<close> fails as out of
  range. In both cases the state that comes back is the state that went in, so no step of
  the motor has been made and Position and Homed are unchanged.
\<close>

theorem goToPosition_rejects:
  "(\<not> isHomed s \<longrightarrow> goToPosition sensor target s = Some (Failed NotHomed, s))
   \<and> (isHomed s \<and> (target < 0 \<or> NUM_FLAPS \<le> target)
        \<longrightarrow> goToPosition sensor target s = Some (Failed PositionOutOfRange, s))"
  by (simp add: goToPosition_def)

theorem goToPosition_rejects_witness:
  "\<not> isHomed initial \<and> goToPosition quietSensor 5 initial = Some (Failed NotHomed, initial)
   \<and> isHomed (homedAt 5) \<and> NUM_FLAPS \<le> 40
   \<and> goToPosition quietSensor 40 (homedAt 5) = Some (Failed PositionOutOfRange, homedAt 5)
   \<and> goToPosition quietSensor (- 1) (homedAt 5) = Some (Failed PositionOutOfRange, homedAt 5)"
  using goToPosition_rejects [of initial quietSensor 5]
    goToPosition_rejects [of "homedAt 5" quietSensor 40]
    goToPosition_rejects [of "homedAt 5" quietSensor "- 1"]
  by (simp add: initial_def homedAt_def NUM_FLAPS_def)

section \<open>Homing\<close>

text \<open>
  C3. The scan reads the sensor before each of its at most \<open>STEPS_PER_FLAP * NUM_FLAPS * 2\<close>
  steps. If one of these reads reports at-home, the first of them after \<open>k\<close> steps, then,
  from any state, \<open>homeDisplay\<close> goes on stepping while the sensor reports at-home, for
  \<open>e\<close> steps that end when the sensor reports not-at-home or when \<open>e\<close> has reached
  \<open>STEPS_PER_FLAP\<close>, and it ends with Position equal to \<open>HOME_POSITION\<close> and Homed true.
  All steps are forward: two flaps' worth first if the sensor read at-home at entry, then
  \<open>k\<close>, then \<open>e\<close>.
\<close>

theorem homeDisplay_succeeds:
  assumes "k < nat (STEPS_PER_FLAP * NUM_FLAPS * 2)"
    and "sensor (Suc (reads s) + k)"
    and "\<forall>j < k. \<not> sensor (Suc (reads s) + j)"
  shows "\<exists>e s'. homeDisplay sensor s = (HomedOk, s')
           \<and> currentPosition s' = HOME_POSITION \<and> isHomed s'
           \<and> e \<le> nat STEPS_PER_FLAP
           \<and> (\<forall>j < e. sensor (reads s + k + 2 + j))
           \<and> (e = nat STEPS_PER_FLAP \<or> \<not> sensor (reads s + k + 2 + e))
           \<and> fwd s' = fwd s + (if sensor (reads s) then nat (STEPS_PER_FLAP * 2) else 0)
                + k + e
           \<and> bwd s' = bwd s
           \<and> reads s' = reads s + k + e + 3"
proof -
  define s1 where "s1 = s\<lparr>reads := Suc (reads s)\<rparr>"
  define s2 where "s2 = (if sensor (reads s) then moveSteps (STEPS_PER_FLAP * 2) s1 else s1)"
  define m where "m = STEPS_PER_FLAP * NUM_FLAPS * 2"
  have rd: "reads s2 = Suc (reads s)" by (simp add: s2_def s1_def)
  have fw: "fwd s2 = fwd s + (if sensor (reads s) then nat (STEPS_PER_FLAP * 2) else 0)"
    by (simp add: s2_def s1_def moveSteps_fwd STEPS_PER_FLAP_def)
  have bw: "bwd s2 = bwd s"
    by (simp add: s2_def s1_def moveSteps_bwd STEPS_PER_FLAP_def)
  have a: "k < nat (m - 0)" using assms(1) by (simp add: m_def)
  have b: "sensor (reads s2 + k)" using assms(2) rd by simp
  have c: "\<forall>j < k. \<not> sensor (reads s2 + j)" using assms(3) rd by simp
  from searchLoop_found [OF a b c] obtain s3 where
    r: "searchLoop sensor m 0 s2 = (True, s3)" "fwd s3 = fwd s2 + k" "bwd s3 = bwd s2"
      "reads s3 = reads s2 + Suc k"
    by blast
  have "(0::int) \<le> STEPS_PER_FLAP" by (simp add: STEPS_PER_FLAP_def)
  from exitLoop_steps [OF this, of sensor s3] obtain e where
    x: "e \<le> nat (STEPS_PER_FLAP - 0)" "\<forall>j < e. sensor (reads s3 + j)"
      "e = nat (STEPS_PER_FLAP - 0) \<or> \<not> sensor (reads s3 + e)"
      "fwd (exitLoop sensor 0 s3) = fwd s3 + e"
      "bwd (exitLoop sensor 0 s3) = bwd s3"
      "reads (exitLoop sensor 0 s3) = reads s3 + Suc e"
    by blast
  define s' where "s' = (exitLoop sensor 0 s3)\<lparr>currentPosition := HOME_POSITION, isHomed := True\<rparr>"
  have rd3: "reads s3 = reads s + k + 2" using r(4) rd by simp
  have "homeDisplay sensor s = (HomedOk, s')"
    using r(1) unfolding homeDisplay_def isAtHome_def Let_def s2_def s1_def m_def s'_def by simp
  moreover have "currentPosition s' = HOME_POSITION" "isHomed s'" by (simp_all add: s'_def)
  moreover have "e \<le> nat STEPS_PER_FLAP" using x(1) by simp
  moreover have "\<forall>j < e. sensor (reads s + k + 2 + j)" using x(2) rd3 by simp
  moreover have "e = nat STEPS_PER_FLAP \<or> \<not> sensor (reads s + k + 2 + e)"
    using x(3) rd3 by simp
  moreover have "fwd s' = fwd s + (if sensor (reads s) then nat (STEPS_PER_FLAP * 2) else 0) + k + e"
    using x(4) r(2) fw by (simp add: s'_def)
  moreover have "bwd s' = bwd s" using x(5) r(3) bw by (simp add: s'_def)
  moreover have "reads s' = reads s + k + e + 3" using x(6) rd3 by (simp add: s'_def)
  ultimately show ?thesis by blast
qed

theorem homeDisplay_succeeds_witness:
  "\<exists>s'. homeDisplay (pulseSensor 101 152) initial = (HomedOk, s')
     \<and> currentPosition s' = 2 \<and> isHomed s'
     \<and> fwd s' = 150 \<and> bwd s' = 0 \<and> reads s' = 153"
proof -
  have a: "100 < nat (STEPS_PER_FLAP * NUM_FLAPS * 2)"
    by (simp add: STEPS_PER_FLAP_def NUM_FLAPS_def)
  have b: "pulseSensor 101 152 (Suc (reads initial) + 100)"
    by (simp add: pulseSensor_def initial_def)
  have c: "\<forall>j < 100. \<not> pulseSensor 101 152 (Suc (reads initial) + j)"
    by (simp add: pulseSensor_def initial_def)
  from homeDisplay_succeeds [OF a b c] obtain e s' where
    r: "homeDisplay (pulseSensor 101 152) initial = (HomedOk, s')"
      "currentPosition s' = HOME_POSITION" "isHomed s'" "e \<le> nat STEPS_PER_FLAP"
      "\<forall>j < e. pulseSensor 101 152 (reads initial + 100 + 2 + j)"
      "e = nat STEPS_PER_FLAP \<or> \<not> pulseSensor 101 152 (reads initial + 100 + 2 + e)"
      "fwd s' = fwd initial
         + (if pulseSensor 101 152 (reads initial) then nat (STEPS_PER_FLAP * 2) else 0)
         + 100 + e"
      "bwd s' = bwd initial" "reads s' = reads initial + 100 + e + 3"
    by blast
  have "e \<le> 50"
  proof (rule ccontr)
    assume "\<not> e \<le> 50"
    then have "50 < e" by simp
    then have "pulseSensor 101 152 (reads initial + 100 + 2 + 50)" using r(5) by blast
    then show False by (simp add: pulseSensor_def initial_def)
  qed
  moreover have "50 \<le> e"
    using r(6) by (auto simp: pulseSensor_def initial_def STEPS_PER_FLAP_def)
  ultimately have "e = 50" by simp
  then show ?thesis
    using r(1,2,3,7,8,9)
    by (intro exI [of _ s'])
      (simp add: HOME_POSITION_def STEPS_PER_FLAP_def pulseSensor_def initial_def)
qed

text \<open>
  C4. If none of the reads of the scan reports at-home, then, from any state (homed or
  not), \<open>homeDisplay\<close> ends after the full budget of \<open>STEPS_PER_FLAP * NUM_FLAPS * 2\<close>
  steps with Homed false and Position unknown (\<open>-1\<close>).
\<close>

theorem homeDisplay_fails:
  assumes "\<forall>k < nat (STEPS_PER_FLAP * NUM_FLAPS * 2). \<not> sensor (Suc (reads s) + k)"
  shows "\<exists>s'. homeDisplay sensor s = (Failed HomingFailed, s')
           \<and> \<not> isHomed s' \<and> currentPosition s' = - 1
           \<and> fwd s' = fwd s + (if sensor (reads s) then nat (STEPS_PER_FLAP * 2) else 0)
                + nat (STEPS_PER_FLAP * NUM_FLAPS * 2)
           \<and> bwd s' = bwd s"
proof -
  define s1 where "s1 = s\<lparr>reads := Suc (reads s)\<rparr>"
  define s2 where "s2 = (if sensor (reads s) then moveSteps (STEPS_PER_FLAP * 2) s1 else s1)"
  define m where "m = STEPS_PER_FLAP * NUM_FLAPS * 2"
  have rd: "reads s2 = Suc (reads s)" by (simp add: s2_def s1_def)
  have fw: "fwd s2 = fwd s + (if sensor (reads s) then nat (STEPS_PER_FLAP * 2) else 0)"
    by (simp add: s2_def s1_def moveSteps_fwd STEPS_PER_FLAP_def)
  have bw: "bwd s2 = bwd s"
    by (simp add: s2_def s1_def moveSteps_bwd STEPS_PER_FLAP_def)
  have "\<forall>k < nat (m - 0). \<not> sensor (reads s2 + k)" using assms rd by (simp add: m_def)
  from searchLoop_quiet [OF this] obtain s3 where
    r: "searchLoop sensor m 0 s2 = (False, s3)" "fwd s3 = fwd s2 + nat (m - 0)"
      "bwd s3 = bwd s2"
    by blast
  have "homeDisplay sensor s = (Failed HomingFailed, s3\<lparr>isHomed := False, currentPosition := - 1\<rparr>)"
    using r(1) unfolding homeDisplay_def isAtHome_def Let_def s2_def s1_def m_def by simp
  then show ?thesis using r(2,3) fw bw by (simp add: m_def)
qed

theorem homeDisplay_fails_witness:
  "\<exists>s'. homeDisplay quietSensor (homedAt 7) = (Failed HomingFailed, s')
     \<and> \<not> isHomed s' \<and> currentPosition s' = - 1 \<and> fwd s' = 4080 \<and> bwd s' = 0"
  using homeDisplay_fails [of quietSensor "homedAt 7"]
  by (simp add: quietSensor_def homedAt_def STEPS_PER_FLAP_def NUM_FLAPS_def)

section \<open>Drift during a move\<close>

text \<open>
  C2. The drift scenario, with \<open>NUM_FLAPS = 40\<close> and \<open>HOME_POSITION = 2\<close>: a homed
  controller at Position 5 is sent to 10, and the sensor reports at-home exactly once, at
  the check after the third advance. Two passes through the loop body lead to the state
  \<open>s2\<close>; the third advance brings the tracked Position to 8, and the third pass snaps it
  to \<open>HOME_POSITION\<close> and sets the loop bound to 11 (three flaps done, eight remaining).
  The loop then ends after 11 advances in all with the tracked Position at 10, so the
  final assignment of \<open>goToPosition\<close> changes nothing.
\<close>

theorem drift_scenario:
  assumes "isHomed s" and "currentPosition s = 5"
    and "\<forall>k < 11. sensor (reads s + k) = (k = 2)"
  shows "\<exists>s2 s3 sF.
           s2 = snd (moveBody sensor 10 1 5 (snd (moveBody sensor 10 0 5 s)))
           \<and> currentPosition (advanceOneFlap s2) = 8 \<and> flaps (advanceOneFlap s2) = flaps s + 3
           \<and> moveBody sensor 10 2 5 s2 = (11, s3)
           \<and> currentPosition s3 = HOME_POSITION \<and> resyncs s3 = Suc (resyncs s)
           \<and> moveLoop sensor 10 0 5 s = Some sF
           \<and> currentPosition sF = 10 \<and> flaps sF = flaps s + 11
           \<and> resyncs sF = Suc (resyncs s)
           \<and> goToPosition sensor 10 s = Some (Arrived, sF) \<and> isHomed sF"
proof -
  define s1 where "s1 = (advanceOneFlap s)\<lparr>reads := Suc (reads s)\<rparr>"
  define s2 where "s2 = (advanceOneFlap s1)\<lparr>reads := Suc (reads s1)\<rparr>"
  define s3 where "s3 = (advanceOneFlap s2)\<lparr>reads := Suc (reads s2),
    currentPosition := HOME_POSITION, resyncs := Suc (resyncs s2)\<rparr>"
  have q0: "\<not> sensor (reads s)" using assms(3) by (auto dest: spec [of _ 0])
  have q1: "\<not> sensor (reads s1)" using assms(3) by (auto simp: s1_def dest: spec [of _ 1])
  have h2: "sensor (reads s2)" using assms(3) by (auto simp: s1_def s2_def dest: spec [of _ 2])
  have b0: "moveBody sensor 10 0 5 s = (5, s1)"
    using q0 by (simp add: moveBody_quiet s1_def)
  have b1: "moveBody sensor 10 1 5 s1 = (5, s2)"
    using q1 by (simp add: moveBody_quiet s2_def)
  have p1: "currentPosition s1 = 6"
    using assms(2) by (simp add: s1_def advanceOneFlap_currentPosition)
  have p2: "currentPosition s2 = 7"
    using p1 by (simp add: s2_def advanceOneFlap_currentPosition)
  have p3: "currentPosition (advanceOneFlap s2) = 8"
    using p2 by (simp add: advanceOneFlap_currentPosition)
  have b2: "moveBody sensor 10 2 5 s2 = (11, s3)"
    using h2 p3 by (simp add: moveBody_resync s3_def HOME_POSITION_def NUM_FLAPS_def)
  have l3: "moveLoop sensor 10 0 5 s = moveLoop sensor 10 3 11 s3"
    using moveLoop_step [OF _ b0] moveLoop_step [OF _ b1] moveLoop_step [OF _ b2] by simp
  have rd3: "reads s3 = reads s + 3" by (simp add: s3_def s2_def s1_def)
  have "\<forall>k < nat (11 - 3). \<not> sensor (reads s3 + k)"
  proof (intro allI impI)
    fix k :: nat assume "k < nat (11 - 3)"
    then have "k + 3 < 11" by simp
    then have "sensor (reads s + (k + 3)) = (k + 3 = 2)" using assms(3) by blast
    then have n: "\<not> sensor (reads s + (k + 3))" by simp
    have e: "reads s3 + k = reads s + (k + 3)" using rd3 by simp
    show "\<not> sensor (reads s3 + k)" unfolding e by (rule n)
  qed
  from moveLoop_quiet [OF this, of 10] obtain sF where
    r: "moveLoop sensor 10 3 11 s3 = Some sF" "flaps sF = flaps s3 + nat (11 - 3)"
      "resyncs sF = resyncs s3" "isHomed sF = isHomed s3"
      "currentPosition sF =
         (if 0 \<le> currentPosition s3 \<and> (3::int) < 11 then (currentPosition s3 + (11 - 3)) mod 40
          else currentPosition s3)"
    by blast
  have pF: "currentPosition sF = 10" using r(5) by (simp add: s3_def HOME_POSITION_def)
  have fF: "flaps sF = flaps s + 11" using r(2) by (simp add: s3_def s2_def s1_def)
  have rF: "resyncs sF = Suc (resyncs s)" using r(3) by (simp add: s3_def s2_def s1_def)
  have hF: "isHomed sF" using r(4) assms(1) by (simp add: s3_def s2_def s1_def)
  have "sF\<lparr>currentPosition := 10\<rparr> = sF" using pF by simp
  then have g: "goToPosition sensor 10 s = Some (Arrived, sF)"
    using assms(1,2) l3 r(1)
    by (simp add: goToPosition_def Let_def NUM_FLAPS_def signed_modulo_int_def)
  have "s2 = snd (moveBody sensor 10 1 5 (snd (moveBody sensor 10 0 5 s)))"
    using b0 b1 by simp
  moreover have "flaps (advanceOneFlap s2) = flaps s + 3" by (simp add: s2_def s1_def)
  moreover have "currentPosition s3 = HOME_POSITION" by (simp add: s3_def)
  moreover have "resyncs s3 = Suc (resyncs s)" by (simp add: s3_def s2_def s1_def)
  ultimately show ?thesis using p3 b2 l3 r(1) pF fF rF g hF by auto
qed

theorem drift_scenario_witness:
  "\<exists>s2 s3 sF.
     s2 = snd (moveBody (pulseSensor 2 3) 10 1 5 (snd (moveBody (pulseSensor 2 3) 10 0 5 (homedAt 5))))
     \<and> currentPosition (advanceOneFlap s2) = 8 \<and> flaps (advanceOneFlap s2) = 3
     \<and> moveBody (pulseSensor 2 3) 10 2 5 s2 = (11, s3)
     \<and> currentPosition s3 = 2 \<and> resyncs s3 = 1
     \<and> moveLoop (pulseSensor 2 3) 10 0 5 (homedAt 5) = Some sF
     \<and> currentPosition sF = 10 \<and> flaps sF = 11 \<and> resyncs sF = 1
     \<and> goToPosition (pulseSensor 2 3) 10 (homedAt 5) = Some (Arrived, sF) \<and> isHomed sF"
proof -
  have a: "isHomed (homedAt 5)" and b: "currentPosition (homedAt 5) = 5"
    by (simp_all add: homedAt_def)
  have c: "\<forall>k < 11. pulseSensor 2 3 (reads (homedAt 5) + k) = (k = 2)"
    by (auto simp: pulseSensor_def homedAt_def)
  show ?thesis
    using drift_scenario [OF a b c] by (simp add: homedAt_def HOME_POSITION_def)
qed

text \<open>
  C6, as the specification states it, does not hold: a re-sync leaves Position at
  \<open>HOME_POSITION\<close>, but the next check comes after a further advance, with Position at
  \<open>HOME_POSITION + 1\<close>. In the move from 5 to 10 with the sensor at-home at the checks
  after the third and the fourth advance, the re-sync fires at both checks, and the move
  makes 12 advances.
\<close>

theorem resync_fires_twice:
  "goToPosition (pulseSensor 2 4) 10 (homedAt 5) =
     Some (Arrived, \<lparr>currentPosition = 10, isHomed = True, stepIndex = 4, fwd = 612,
       bwd = 0, flaps = 12, reads = 12, resyncs = 2\<rparr>)"
  by code_simp

text \<open>
  C6, amended. In one pass through the loop body the re-sync fires exactly when the sensor
  reports at-home and the Position tracked after the advance differs from
  \<open>HOME_POSITION\<close>; it then sets Position to \<open>HOME_POSITION\<close> and the loop bound to
  \<open>i + 1 + remaining\<close>. A pass that starts with Position at \<open>HOME_POSITION\<close>, as the
  pass after a re-sync does, fires the re-sync again when the sensor reports at-home.
\<close>

theorem resync_fires_at_every_unexpected_home:
  "resyncs (snd (moveBody sensor t i n s)) =
     (if sensor (reads s) \<and> currentPosition (advanceOneFlap s) \<noteq> HOME_POSITION
      then Suc (resyncs s) else resyncs s)
   \<and> (sensor (reads s) \<and> currentPosition (advanceOneFlap s) \<noteq> HOME_POSITION
        \<longrightarrow> currentPosition (snd (moveBody sensor t i n s)) = HOME_POSITION
          \<and> fst (moveBody sensor t i n s) = i + 1 + (t - HOME_POSITION + NUM_FLAPS) smod NUM_FLAPS)
   \<and> (currentPosition s = HOME_POSITION \<and> sensor (reads s)
        \<longrightarrow> resyncs (snd (moveBody sensor t i n s)) = Suc (resyncs s)
          \<and> currentPosition (snd (moveBody sensor t i n s)) = HOME_POSITION)"
proof -
  have "currentPosition s = HOME_POSITION \<Longrightarrow> currentPosition (advanceOneFlap s) \<noteq> HOME_POSITION"
    by (simp add: advanceOneFlap_currentPosition HOME_POSITION_def)
  then show ?thesis
    by (auto simp: moveBody_def isAtHome_def Let_def)
qed

theorem resync_fires_at_every_unexpected_home_witness:
  "resyncs (snd (moveBody (pulseSensor 0 2) 10 3 11 (homedAt 2))) = 1
   \<and> currentPosition (snd (moveBody (pulseSensor 0 2) 10 3 11 (homedAt 2))) = 2
   \<and> fst (moveBody (pulseSensor 0 2) 10 3 11 (homedAt 2)) = 12
   \<and> resyncs (snd (moveBody (pulseSensor 0 2) 10 3 11 (homedAt 1))) = 0
   \<and> resyncs (snd (moveBody quietSensor 10 3 11 (homedAt 2))) = 0"
  using resync_fires_at_every_unexpected_home [of "pulseSensor 0 2" 10 3 11 "homedAt 2"]
    resync_fires_at_every_unexpected_home [of "pulseSensor 0 2" 10 3 11 "homedAt 1"]
    resync_fires_at_every_unexpected_home [of quietSensor 10 3 11 "homedAt 2"]
  by (simp add: pulseSensor_def quietSensor_def homedAt_def advanceOneFlap_currentPosition
      HOME_POSITION_def NUM_FLAPS_def signed_modulo_int_def)

section \<open>The character set and the drum\<close>

text \<open>
  C7. The character set of the sketch has 41 characters and the drum has
  \<open>NUM_FLAPS = 40\<close> flaps: the lookup of \<open>!\<close> yields the index 40, which is no Position,
  and \<open>goToCharacter\<close> of \<open>!\<close> in a homed state is rejected as out of range.
\<close>

theorem character_set_exceeds_drum:
  "length CHARACTERS = 41 \<and> NUM_CHARACTERS = 41 \<and> NUM_FLAPS = 40
   \<and> findLoop (toUpper CHR ''!'') 0 = 40
   \<and> goToCharacter quietSensor CHR ''!'' (homedAt 5)
       = Some (Failed PositionOutOfRange, homedAt 5)"
  by (simp add: findLoop_bang goToCharacter_def goToPosition_def Let_def NUM_FLAPS_def
      NUM_CHARACTERS_def CHARACTERS_def homedAt_def)

text \<open>
  C10, as stated, does not hold in a state that is not homed: there the delegated
  \<open>goToPosition\<close> fails as not homed, since it tests Homed before the range.
\<close>

theorem unhomed_trailing_character_not_out_of_range:
  "NUM_FLAPS \<le> findLoop (toUpper CHR ''!'') 0
   \<and> goToCharacter quietSensor CHR ''!'' initial = Some (Failed NotHomed, initial)
   \<and> goToCharacter quietSensor CHR ''!'' initial \<noteq> Some (Failed PositionOutOfRange, initial)"
  by (simp add: findLoop_bang goToCharacter_def goToPosition_def Let_def NUM_FLAPS_def
      initial_def)

text \<open>
  C10, amended. For a character whose first index in the character set is \<open>NUM_FLAPS\<close>
  or more, \<open>goToCharacter\<close> does not fail as character-not-found; the delegated
  \<open>goToPosition\<close> fails, as out of range when Homed is true and as not homed when Homed
  is false, and the state that comes back is the state that went in: no step of the
  motor, Position and Homed unchanged.
\<close>

theorem goToCharacter_beyond_drum:
  assumes "NUM_FLAPS \<le> findLoop (toUpper c) 0"
  shows "goToCharacter sensor c s
           = Some (Failed (if isHomed s then PositionOutOfRange else NotHomed), s)
         \<and> goToCharacter sensor c s \<noteq> Some (Failed CharacterNotFound, s)"
  using assms by (simp add: goToCharacter_def goToPosition_def Let_def NUM_FLAPS_def)

theorem goToCharacter_beyond_drum_witness:
  "NUM_FLAPS \<le> findLoop (toUpper CHR ''!'') 0
   \<and> goToCharacter (pulseSensor 0 5) CHR ''!'' (homedAt 5)
       = Some (Failed PositionOutOfRange, homedAt 5)
   \<and> goToCharacter (pulseSensor 0 5) CHR ''!'' initial = Some (Failed NotHomed, initial)"
  using goToCharacter_beyond_drum [of "CHR ''!''" "pulseSensor 0 5" "homedAt 5"]
    goToCharacter_beyond_drum [of "CHR ''!''" "pulseSensor 0 5" initial]
  by (simp add: findLoop_bang NUM_FLAPS_def homedAt_def initial_def)

section \<open>The position invariant is kept\<close>

text \<open>
  C9. From a state whose Position is unknown or in \<open>[0, NUM_FLAPS)\<close>, every operation
  that returns (\<open>homeDisplay\<close>, \<open>goToPosition\<close>, \<open>goToCharacter\<close>, \<open>showStatus\<close>,
  \<open>testMotor\<close>) returns such a state, and so do a single-flap advance, a pass through
  the body of the move loop and the move loop itself. A single-flap advance made while
  Position is unknown leaves it unknown.
\<close>

theorem operations_keep_position_valid:
  assumes "positionValid s"
  shows "positionValid (snd (homeDisplay sensor s))
    \<and> (\<forall>out s'. goToPosition sensor t s = Some (out, s') \<longrightarrow> positionValid s')
    \<and> (\<forall>out s'. goToCharacter sensor c s = Some (out, s') \<longrightarrow> positionValid s')
    \<and> positionValid (snd (showStatus sensor s))
    \<and> positionValid (testMotor s)
    \<and> positionValid (advanceOneFlap s)
    \<and> (currentPosition s = - 1 \<longrightarrow> currentPosition (advanceOneFlap s) = - 1)
    \<and> positionValid (snd (moveBody sensor t i n s))
    \<and> (\<forall>s'. moveLoop sensor t i n s = Some s' \<longrightarrow> positionValid s')"
proof (intro conjI allI impI)
  show "positionValid (snd (homeDisplay sensor s))"
    by (rule positionValid_homeDisplay)
  show "positionValid s'" if "goToPosition sensor t s = Some (out, s')" for out s'
    using that assms by (rule positionValid_goToPosition)
  show "positionValid s'" if "goToCharacter sensor c s = Some (out, s')" for out s'
    using that assms positionValid_goToPosition
    by (auto simp: goToCharacter_def Let_def split: if_splits)
  show "positionValid (snd (showStatus sensor s))"
    using assms by (simp add: showStatus_def isAtHome_def positionValid_def)
  show "positionValid (testMotor s)"
    using assms by (simp add: testMotor_def positionValid_def)
  show "positionValid (advanceOneFlap s)"
    using assms by (rule positionValid_advanceOneFlap)
  show "currentPosition (advanceOneFlap s) = - 1" if "currentPosition s = - 1"
    using that by (simp add: advanceOneFlap_currentPosition)
  show "positionValid (snd (moveBody sensor t i n s))"
    using assms by (rule positionValid_moveBody)
  show "positionValid s'" if "moveLoop sensor t i n s = Some s'" for s'
    using that assms by (rule positionValid_moveLoop)
qed

theorem operations_keep_position_valid_witness:
  "positionValid (homedAt 5)
   \<and> positionValid (snd (homeDisplay quietSensor (homedAt 5)))
   \<and> (\<exists>out s'. goToPosition (pulseSensor 2 3) 10 (homedAt 5) = Some (out, s')
         \<and> positionValid s')
   \<and> (\<exists>out s'. goToCharacter quietSensor CHR ''f'' (homedAt 5) = Some (out, s')
         \<and> positionValid s')
   \<and> positionValid (snd (showStatus quietSensor (homedAt 5)))
   \<and> positionValid (testMotor (homedAt 5))
   \<and> positionValid (advanceOneFlap (homedAt 5))
   \<and> positionValid initial \<and> currentPosition (advanceOneFlap initial) = - 1"
proof -
  have v: "positionValid (homedAt 5)"
    by (simp add: positionValid_def homedAt_def NUM_FLAPS_def)
  have u: "positionValid initial"
    by (simp add: positionValid_def initial_def)
  have g: "goToPosition (pulseSensor 2 3) 10 (homedAt 5) =
      Some (Arrived, \<lparr>currentPosition = 10, isHomed = True, stepIndex = 1, fwd = 561,
        bwd = 0, flaps = 11, reads = 11, resyncs = 1\<rparr>)"
    by code_simp
  have c: "goToCharacter quietSensor CHR ''f'' (homedAt 5) =
      Some (Arrived, \<lparr>currentPosition = 6, isHomed = True, stepIndex = 3, fwd = 51,
        bwd = 0, flaps = 1, reads = 1, resyncs = 0\<rparr>)"
    by code_simp
  have i: "currentPosition initial = - 1" by (simp add: initial_def)
  show ?thesis
    using operations_keep_position_valid [OF v, of quietSensor 10 "CHR ''f''" 0 5]
      operations_keep_position_valid [OF v, of "pulseSensor 2 3" 10 "CHR ''f''" 0 5]
      operations_keep_position_valid [OF u, of quietSensor 10 "CHR ''f''" 0 5]
      v u g c i
    by simp
qed

end
